theory Spec2Isabelle
  imports Main
begin

section \<open>EIP-6963 provider discovery (packages/web3/src/web3\_eip6963.ts)\<close>

subsection \<open>Run-time values\<close>

text \<open>
  The listener of \<open>requestEIP6963Providers\<close> receives whatever event a third party
  dispatched on \<open>window\<close>: the TypeScript interfaces are erased at run time (the source
  casts the event name \<open>as any\<close> to attach a listener typed for the announce event).
  Values are therefore modelled untyped. An object value is a reference: the address of
  the object in the store, which holds the object's own properties. Equality of two
  \<open>jsval\<close>s is then identity on objects and value equality on primitives, as \<open>Map\<close>
  compares keys (SameValueZero), and a value kept somewhere (in a \<open>Map\<close>, in a
  wallet's handler) is the object itself, not a copy: an assignment to one of its
  properties is seen through every reference. Numbers are restricted to integers.
\<close>

datatype jsval =
    JUndefined
  | JNull
  | JNumber int
  | JString string
  | JObject nat

type_synonym object_store = "nat \<Rightarrow> (string \<times> jsval) list"

datatype js_error =
    Error string
  | TypeError

text \<open>
  Property read \<open>v.p\<close>: reading a property of \<open>undefined\<close> or \<open>null\<close> throws a
  TypeError; a property an object does not have reads as \<open>undefined\<close>; so does a
  property of a primitive that its prototype does not define (the source reads only
  \<open>info\<close> and \<open>uuid\<close>, which no built-in prototype defines).
\<close>

fun get_prop :: "object_store \<Rightarrow> jsval \<Rightarrow> string \<Rightarrow> js_error + jsval" where
  "get_prop os JUndefined p = Inl TypeError"
| "get_prop os JNull p = Inl TypeError"
| "get_prop os (JNumber n) p = Inr JUndefined"
| "get_prop os (JString s) p = Inr JUndefined"
| "get_prop os (JObject a) p =
     Inr (case map_of (os a) p of None \<Rightarrow> JUndefined | Some v \<Rightarrow> v)"

text \<open>
  Assignment \<open>o.p = v\<close> to an object in the store: the property is replaced where the
  object has it, added otherwise.
\<close>

fun set_prop :: "string \<Rightarrow> jsval \<Rightarrow> (string \<times> jsval) list \<Rightarrow> (string \<times> jsval) list" where
  "set_prop p v [] = [(p, v)]"
| "set_prop p v ((q, x) # fs) = (if q = p then (p, v) # fs else (q, x) # set_prop p v fs)"

text \<open>The values whose properties cannot be read.\<close>

fun nullish :: "jsval \<Rightarrow> bool" where
  "nullish JUndefined = True"
| "nullish JNull = True"
| "nullish v = False"

subsection \<open>Event names and interfaces\<close>

datatype Eip6963EventName = eip6963announceProvider | eip6963requestProvider

text \<open>The string value of each member of the string enum.\<close>

fun event_name :: "Eip6963EventName \<Rightarrow> string" where
  "event_name eip6963announceProvider = ''eip6963:announceProvider''"
| "event_name eip6963requestProvider = ''eip6963:requestProvider''"

text \<open>
  An interface of the source is a shape of run-time values:
  \<open>EIP6963ProviderInfo\<close> has the four string fields, \<open>EIP6963ProviderDetail\<close> an
  \<open>info\<close> of that shape and a \<open>provider\<close> object.
\<close>

fun is_string :: "jsval \<Rightarrow> bool" where
  "is_string (JString s) = True"
| "is_string v = False"

fun is_object :: "jsval \<Rightarrow> bool" where
  "is_object (JObject a) = True"
| "is_object v = False"

definition has_field :: "(jsval \<Rightarrow> bool) \<Rightarrow> (string \<times> jsval) list \<Rightarrow> string \<Rightarrow> bool" where
  "has_field shape fs p = (case map_of fs p of None \<Rightarrow> False | Some v \<Rightarrow> shape v)"

fun EIP6963ProviderInfo :: "object_store \<Rightarrow> jsval \<Rightarrow> bool" where
  "EIP6963ProviderInfo os (JObject a) =
     (has_field is_string (os a) ''uuid'' \<and> has_field is_string (os a) ''name'' \<and>
      has_field is_string (os a) ''icon'' \<and> has_field is_string (os a) ''rdns'')"
| "EIP6963ProviderInfo os v = False"

fun EIP6963ProviderDetail :: "object_store \<Rightarrow> jsval \<Rightarrow> bool" where
  "EIP6963ProviderDetail os (JObject a) =
     (has_field (EIP6963ProviderInfo os) (os a) ''info'' \<and>
      has_field is_object (os a) ''provider'')"
| "EIP6963ProviderDetail os v = False"

text \<open>
  An event object: its \<open>type\<close> and its \<open>detail\<close>. \<open>new Event(t)\<close> has no \<open>detail\<close>
  property (it reads as \<open>undefined\<close>); \<open>new CustomEvent(t, {detail: d})\<close> carries
  \<open>d\<close>.
\<close>

record event =
  ev_type :: string
  detail :: jsval

definition Event :: "string \<Rightarrow> event" where
  "Event t = \<lparr>ev_type = t, detail = JUndefined\<rparr>"

definition CustomEvent :: "string \<Rightarrow> jsval \<Rightarrow> event" where
  "CustomEvent t d = \<lparr>ev_type = t, detail = d\<rparr>"

definition EIP6963AnnounceProviderEvent :: "object_store \<Rightarrow> event \<Rightarrow> bool" where
  "EIP6963AnnounceProviderEvent os e =
     (ev_type e = event_name eip6963announceProvider \<and> EIP6963ProviderDetail os (detail e))"

definition EIP6963RequestProviderEvent :: "event \<Rightarrow> bool" where
  "EIP6963RequestProviderEvent e = (ev_type e = event_name eip6963requestProvider)"

subsection \<open>The Map object\<close>

text \<open>
  A \<open>Map\<close> keeps its entries in insertion order with unique keys: \<open>set\<close> replaces the
  value of a key that is present, in place, and appends a new key.
\<close>

type_synonym jsmap = "(jsval \<times> jsval) list"

fun Map_set :: "jsval \<Rightarrow> jsval \<Rightarrow> jsmap \<Rightarrow> jsmap" where
  "Map_set k v [] = [(k, v)]"
| "Map_set k v ((k', v') # m) = (if k' = k then (k, v) # m else (k', v') # Map_set k v m)"

definition Map_get :: "jsmap \<Rightarrow> jsval \<Rightarrow> jsval option" where
  "Map_get m k = map_of m k"

definition Map_size :: "jsmap \<Rightarrow> nat" where
  "Map_size m = length m"

definition Map_keys :: "jsmap \<Rightarrow> jsval list" where
  "Map_keys m = map fst m"

subsection \<open>The realm: window, heap, function objects\<close>

text \<open>
  A listener registered on \<open>window\<close> is a function object. \<open>StoreListener i\<close> is the
  \<open>i\<close>-th function object made by evaluating the arrow function that
  \<open>requestEIP6963Providers\<close> passes to \<open>addEventListener\<close>. \<open>Announcer d\<close> is the
  handler of a third-party wallet: called with a request event it dispatches, in the
  same turn, an announce event with detail \<open>d\<close>.
\<close>

datatype callback = StoreListener nat | Announcer jsval

datatype effect = AddListener string callback | Dispatch event

record event_target =
  listeners :: "(string \<times> callback) list"

text \<open>
  \<open>window\<close> is \<open>None\<close> where \<open>typeof window === 'undefined'\<close>. \<open>heap\<close> holds the
  \<open>Map\<close> objects by address, \<open>objects\<close> the properties of the plain objects by
  address, \<open>fn_count\<close> counts the function objects made so far,
  \<open>reported\<close> collects the exceptions that listeners threw (the DOM reports them and
  goes on), and \<open>trace\<close> records the calls made on \<open>window\<close> in order.
\<close>

record realm =
  window :: "event_target option"
  heap :: "nat \<Rightarrow> jsmap"
  objects :: object_store
  fn_count :: nat
  reported :: "js_error list"
  trace :: "effect list"

text \<open>
  \<open>export const eip6963Providers = new Map()\<close>: the one \<open>Map\<close> object made when the
  module is loaded; the constant is its address.
\<close>

definition eip6963Providers :: nat where
  "eip6963Providers = 0"

definition module_init :: "event_target option \<Rightarrow> object_store \<Rightarrow> realm" where
  "module_init w os =
     \<lparr>window = w, heap = (\<lambda>a. []), objects = os, fn_count = 0, reported = [], trace = []\<rparr>"

definition registry :: "realm \<Rightarrow> jsmap" where
  "registry s = heap s eip6963Providers"

subsection \<open>The listener and the DOM operations\<close>

text \<open>
  The arrow function of lines 58 to 63:
  \<open>(event) => { eip6963Providers.set(event.detail.info.uuid, event.detail); }\<close>.
\<close>

definition announce_listener :: "event \<Rightarrow> realm \<Rightarrow> js_error + realm" where
  "announce_listener event s =
     (case get_prop (objects s) (detail event) ''info'' of
        Inl err \<Rightarrow> Inl err
      | Inr i \<Rightarrow>
          (case get_prop (objects s) i ''uuid'' of
             Inl err \<Rightarrow> Inl err
           | Inr u \<Rightarrow>
               Inr (s\<lparr>heap := (heap s)
                       (eip6963Providers := Map_set u (detail event) (heap s eip6963Providers))\<rparr>)))"

text \<open>
  A listener called by the DOM: an exception it throws is reported, not propagated to
  the caller of \<open>dispatchEvent\<close>.
\<close>

definition call_listener :: "event \<Rightarrow> realm \<Rightarrow> realm" where
  "call_listener e s =
     (case announce_listener e s of
        Inl err \<Rightarrow> s\<lparr>reported := reported s @ [err]\<rparr>
      | Inr s' \<Rightarrow> s')"

text \<open>
  \<open>addEventListener\<close> appends the listener unless the same function object is already
  registered for the same type.
\<close>

definition addEventListener :: "string \<Rightarrow> callback \<Rightarrow> event_target \<Rightarrow> event_target" where
  "addEventListener t cb w =
     (if (t, cb) \<in> set (listeners w) then w
      else w\<lparr>listeners := listeners w @ [(t, cb)]\<rparr>)"

text \<open>
  \<open>dispatchEvent\<close> calls, in registration order and before it returns, every listener
  registered for the event's type.
\<close>

function dispatchEvent :: "event_target \<Rightarrow> event \<Rightarrow> realm \<Rightarrow> realm" where
  "dispatchEvent w e s =
     fold (\<lambda>l s'.
        if fst l = ev_type e then
          (case snd l of
             StoreListener i \<Rightarrow> call_listener e s'
           | Announcer d \<Rightarrow>
               if ev_type e = event_name eip6963requestProvider
               then dispatchEvent w (CustomEvent (event_name eip6963announceProvider) d) s'
               else s')
        else s')
       (listeners w) (s\<lparr>trace := trace s @ [Dispatch e]\<rparr>)"
  by pat_completeness auto
termination
  by (relation "measure (\<lambda>(w, e, s).
        if ev_type e = event_name eip6963requestProvider then 1 else 0)")
     (auto simp: CustomEvent_def)

declare dispatchEvent.simps [simp del]

subsection \<open>The discovery operation\<close>

definition window_unavailable :: js_error where
  "window_unavailable =
     Error ''window object not available, EIP-6963 is intended to be used within a browser''"

definition requestEIP6963Providers :: "realm \<Rightarrow> (js_error + nat) \<times> realm" where
  "requestEIP6963Providers s =
     (case window s of
        None \<Rightarrow> (Inl window_unavailable, s)
      | Some w \<Rightarrow>
          (let f = StoreListener (fn_count s);
               w' = addEventListener (event_name eip6963announceProvider) f w;
               s1 = s\<lparr>window := Some w', fn_count := Suc (fn_count s),
                      trace := trace s @ [AddListener (event_name eip6963announceProvider) f]\<rparr>;
               s2 = dispatchEvent w' (Event (event_name eip6963requestProvider)) s1
           in (Inr eip6963Providers, s2)))"

subsection \<open>What can happen in a page\<close>

text \<open>
  Between calls of the discovery operation, any script of the page may dispatch an event
  on \<open>window\<close> (a wallet announcing itself in a later turn of the event loop). Where
  there is no \<open>window\<close> there is nothing to dispatch on. A script may also assign to a
  property of an object it holds: \<open>Assigned a p v\<close> is \<open>o.p = v\<close> for the object
  \<open>o\<close> at address \<open>a\<close>.
\<close>

datatype action = Discover | Dispatched event | Assigned nat string jsval

fun step :: "action \<Rightarrow> realm \<Rightarrow> realm" where
  "step Discover s = snd (requestEIP6963Providers s)"
| "step (Dispatched e) s = (case window s of None \<Rightarrow> s | Some w \<Rightarrow> dispatchEvent w e s)"
| "step (Assigned a p v) s = s\<lparr>objects := (objects s)(a := set_prop p v (objects s a))\<rparr>"

definition run :: "action list \<Rightarrow> realm \<Rightarrow> realm" where
  "run acts s = fold step acts s"

subsection \<open>Notions used to state the properties\<close>

text \<open>
  The key that the listener reads from a detail, \<open>d.info.uuid\<close>, in a given store of
  objects.
\<close>

definition detail_uuid :: "object_store \<Rightarrow> jsval \<Rightarrow> js_error + jsval" where
  "detail_uuid os d =
     (case get_prop os d ''info'' of Inl err \<Rightarrow> Inl err | Inr i \<Rightarrow> get_prop os i ''uuid'')"

definition store_detail :: "object_store \<Rightarrow> jsval \<Rightarrow> jsmap \<Rightarrow> jsmap" where
  "store_detail os d m =
     (case detail_uuid os d of Inl err \<Rightarrow> m | Inr u \<Rightarrow> Map_set u d m)"

text \<open>One step of the listener loop of \<open>dispatchEvent\<close>, for each kind of event.\<close>

definition deliver :: "event \<Rightarrow> string \<times> callback \<Rightarrow> realm \<Rightarrow> realm" where
  "deliver e l s =
     (if fst l = ev_type e then
        (case snd l of StoreListener i \<Rightarrow> call_listener e s | Announcer d \<Rightarrow> s)
      else s)"

definition deliver_request ::
  "event_target \<Rightarrow> event \<Rightarrow> string \<times> callback \<Rightarrow> realm \<Rightarrow> realm" where
  "deliver_request w e l s =
     (if fst l = ev_type e then
        (case snd l of
           StoreListener i \<Rightarrow> call_listener e s
         | Announcer d \<Rightarrow> dispatchEvent w (CustomEvent (event_name eip6963announceProvider) d) s)
      else s)"

text \<open>The listeners of this module registered for a type, and whether there is one.\<close>

fun is_StoreListener :: "callback \<Rightarrow> bool" where
  "is_StoreListener (StoreListener i) = True"
| "is_StoreListener (Announcer d) = False"

definition store_listeners :: "event_target \<Rightarrow> string \<Rightarrow> (string \<times> callback) list" where
  "store_listeners w t = filter (\<lambda>l. fst l = t \<and> is_StoreListener (snd l)) (listeners w)"

definition subscribed :: "event_target \<Rightarrow> bool" where
  "subscribed w = (store_listeners w (event_name eip6963announceProvider) \<noteq> [])"

text \<open>The details of the wallets that answer a request event, in the order they answer.\<close>

fun responders :: "(string \<times> callback) list \<Rightarrow> jsval list" where
  "responders [] = []"
| "responders ((t, Announcer d) # ls) =
     (if t = event_name eip6963requestProvider then d # responders ls else responders ls)"
| "responders ((t, StoreListener i) # ls) = responders ls"

definition announcers :: "event_target \<Rightarrow> jsval list" where
  "announcers w = responders (listeners w)"

text \<open>
  Every function object registered on \<open>window\<close> was made before: its number is below
  the counter.
\<close>

fun made_before :: "nat \<Rightarrow> callback \<Rightarrow> bool" where
  "made_before n (StoreListener i) = (i < n)"
| "made_before n (Announcer d) = True"

definition fresh_fns :: "realm \<Rightarrow> bool" where
  "fresh_fns s =
     (case window s of
        None \<Rightarrow> True
      | Some w \<Rightarrow> list_all (\<lambda>l. made_before (fn_count s) (snd l)) (listeners w))"

text \<open>Whether \<open>window\<close> exists and a listener of this module is registered on it.\<close>

definition listening :: "realm \<Rightarrow> bool" where
  "listening s = (case window s of None \<Rightarrow> False | Some w \<Rightarrow> subscribed w)"

text \<open>The number of this module's listeners registered for the announce event.\<close>

definition listener_count :: "realm \<Rightarrow> nat" where
  "listener_count s =
     (case window s of
        None \<Rightarrow> 0
      | Some w \<Rightarrow> length (store_listeners w (event_name eip6963announceProvider)))"

definition Map_grows :: "jsmap \<Rightarrow> jsmap \<Rightarrow> bool" where
  "Map_grows m m' = (set (Map_keys m) \<subseteq> set (Map_keys m') \<and> Map_size m \<le> Map_size m')"







subsection \<open>Example pages\<close>

text \<open>
  The objects of the examples. Objects 1 and 2 are a wallet's detail and its \<open>info\<close>;
  4 and 5 are a second detail with the same uuid and another name; 3 is the provider of
  both. Object 6 is a detail without \<open>info\<close>; 7 is a detail whose \<open>info\<close>, object 8,
  has a number for \<open>uuid\<close> and nothing else.
\<close>

definition wallet_objects :: object_store where
  "wallet_objects =
     (\<lambda>a. [])
       (1 := [(''info'', JObject 2), (''provider'', JObject 3)],
        2 := [(''uuid'', JString ''abc''), (''name'', JString ''Wallet1''),
              (''icon'', JString ''data:''), (''rdns'', JString ''com.wallet1'')],
        4 := [(''info'', JObject 5), (''provider'', JObject 3)],
        5 := [(''uuid'', JString ''abc''), (''name'', JString ''Wallet2''),
              (''icon'', JString ''data:''), (''rdns'', JString ''com.wallet1'')],
        6 := [(''provider'', JObject 3)],
        7 := [(''info'', JObject 8)],
        8 := [(''uuid'', JNumber 7)])"

definition wallet1 :: jsval where
  "wallet1 = JObject 1"

definition wallet1_renamed :: jsval where
  "wallet1_renamed = JObject 4"

definition no_info :: jsval where
  "no_info = JObject 6"

definition numeric_uuid :: jsval where
  "numeric_uuid = JObject 7"

definition empty_page :: event_target where
  "empty_page = \<lparr>listeners = []\<rparr>"


text \<open>A page where two wallets answer with the same uuid.\<close>

definition two_wallet_page :: event_target where
  "two_wallet_page =
     \<lparr>listeners = [(event_name eip6963requestProvider, Announcer wallet1),
                   (event_name eip6963requestProvider, Announcer wallet1_renamed)]\<rparr>"

text \<open>A page with two wallets of different identifiers.\<close>

definition mixed_page :: event_target where
  "mixed_page =
     \<lparr>listeners = [(event_name eip6963requestProvider, Announcer wallet1),
                   (event_name eip6963requestProvider, Announcer numeric_uuid)]\<rparr>"

text \<open>The realm when the module is loaded in a page, and when it is loaded without one.\<close>

definition loaded :: "event_target \<Rightarrow> realm" where
  "loaded page = module_init (Some page) wallet_objects"

definition loaded_headless :: realm where
  "loaded_headless = module_init None wallet_objects"

text \<open>The realm after one discovery call on a page without wallets.\<close>

definition discovered :: realm where
  "discovered = snd (requestEIP6963Providers (loaded empty_page))"



section \<open>Lemmas\<close>

subsection \<open>The Map object\<close>

lemma Map_keys_set:
  "Map_keys (Map_set k v m) = (if k \<in> set (Map_keys m) then Map_keys m else Map_keys m @ [k])"
  by (induction m) (force simp: Map_keys_def)+

lemma Map_set_keys: "set (Map_keys (Map_set k v m)) = insert k (set (Map_keys m))"
  by (auto simp: Map_keys_set)

lemma Map_set_distinct: "distinct (Map_keys m) \<Longrightarrow> distinct (Map_keys (Map_set k v m))"
  by (simp add: Map_keys_set)

lemma Map_get_set_same: "Map_get (Map_set k v m) k = Some v"
  by (induction m) (auto simp: Map_get_def)

lemma Map_get_set_other: "k' \<noteq> k \<Longrightarrow> Map_get (Map_set k v m) k' = Map_get m k'"
  by (induction m) (auto simp: Map_get_def)

lemma Map_set_idem: "Map_set k v (Map_set k v' m) = Map_set k v m"
  by (induction m) auto

lemma Map_size_set:
  "Map_size (Map_set k v m) = (if k \<in> set (Map_keys m) then Map_size m else Suc (Map_size m))"
  using arg_cong [OF Map_keys_set [of k v m], of length]
  by (simp add: Map_size_def Map_keys_def split: if_splits)

lemma Map_set_filter_same:
  "distinct (Map_keys m) \<Longrightarrow> filter (\<lambda>p. fst p = k) (Map_set k v m) = [(k, v)]"
proof (induction m)
  case Nil
  then show ?case by simp
next
  case (Cons p m)
  show ?case
  proof (cases "fst p = k")
    case True
    with Cons.prems have "k \<notin> fst ` set m" by (simp add: Map_keys_def)
    then have "filter (\<lambda>p. fst p = k) m = []" by (auto simp: filter_empty_conv)
    with True show ?thesis by (cases p) simp
  next
    case False
    with Cons show ?thesis by (cases p) (simp add: Map_keys_def)
  qed
qed


lemma Map_grows_refl: "Map_grows m m"
  by (simp add: Map_grows_def)

lemma Map_grows_trans: "Map_grows a b \<Longrightarrow> Map_grows b c \<Longrightarrow> Map_grows a c"
  by (auto simp: Map_grows_def)

lemma Map_grows_set: "Map_grows m (Map_set k v m)"
  by (auto simp: Map_grows_def Map_set_keys Map_size_set)

lemma store_detail_idem: "store_detail os d (store_detail os d m) = store_detail os d m"
  by (simp add: store_detail_def Map_set_idem split: sum.split)

lemma store_detail_grows: "Map_grows m (store_detail os d m)"
  by (simp add: store_detail_def Map_grows_set Map_grows_refl split: sum.split)

lemma store_detail_distinct:
  "distinct (Map_keys m) \<Longrightarrow> distinct (Map_keys (store_detail os d m))"
  by (simp add: store_detail_def Map_set_distinct split: sum.split)


subsection \<open>The listener\<close>

lemma announce_listener_conv:
  "announce_listener e s =
     (case detail_uuid (objects s) (detail e) of
        Inl err \<Rightarrow> Inl err
      | Inr u \<Rightarrow> Inr (s\<lparr>heap := (heap s)(eip6963Providers := Map_set u (detail e) (registry s))\<rparr>))"
  by (simp add: announce_listener_def detail_uuid_def registry_def split: sum.split)

lemma registry_call_listener:
  "registry (call_listener e s) = store_detail (objects s) (detail e) (registry s)"
  by (simp add: call_listener_def announce_listener_conv store_detail_def registry_def
      split: sum.split)

lemma call_listener_frame:
  "window (call_listener e s) = window s"
  "objects (call_listener e s) = objects s"
  "fn_count (call_listener e s) = fn_count s"
  "trace (call_listener e s) = trace s"
  "a \<noteq> eip6963Providers \<Longrightarrow> heap (call_listener e s) a = heap s a"
  by (simp_all add: call_listener_def announce_listener_conv split: sum.split)

lemma call_listener_reported:
  "detail_uuid (objects s) (detail e) = Inr u \<Longrightarrow> reported (call_listener e s) = reported s"
  by (simp add: call_listener_def announce_listener_conv)

lemma registry_trace [simp]: "registry (s\<lparr>trace := t\<rparr>) = registry s"
  by (simp add: registry_def)

subsection \<open>dispatchEvent\<close>

lemma dispatch_other:
  assumes "ev_type e \<noteq> event_name eip6963requestProvider"
  shows "dispatchEvent w e s =
     fold (deliver e) (listeners w) (s\<lparr>trace := trace s @ [Dispatch e]\<rparr>)"
  using assms
  by (subst dispatchEvent.simps)
     (rule fold_cong; simp add: deliver_def fun_eq_iff split: callback.split)

lemma dispatch_request:
  assumes "ev_type e = event_name eip6963requestProvider"
  shows "dispatchEvent w e s =
     fold (deliver_request w e) (listeners w) (s\<lparr>trace := trace s @ [Dispatch e]\<rparr>)"
  using assms
  by (subst dispatchEvent.simps)
     (rule fold_cong; simp add: deliver_request_def fun_eq_iff split: callback.split)

lemma fold_deliver_invariant:
  assumes "\<And>s. P s \<Longrightarrow> P (call_listener e s)" and "P s"
  shows "P (fold (deliver e) ls s)"
  using assms(2)
proof (induction ls arbitrary: s)
  case Nil
  then show ?case by simp
next
  case (Cons l ls)
  have "P (deliver e l s)"
    using Cons.prems assms(1) by (simp add: deliver_def split: callback.split)
  then show ?case using Cons.IH by simp
qed

lemma dispatch_invariant:
  assumes call: "\<And>e s. P s \<Longrightarrow> P (call_listener e s)"
    and tr: "\<And>e s. P s \<Longrightarrow> P (s\<lparr>trace := trace s @ [Dispatch e]\<rparr>)"
    and "P s"
  shows "P (dispatchEvent w e s)"
proof -
  have other: "P (dispatchEvent w e' s')"
    if "ev_type e' \<noteq> event_name eip6963requestProvider" and "P s'" for e' s'
    using that by (simp add: dispatch_other fold_deliver_invariant call tr del: event_name.simps)
  show ?thesis
  proof (cases "ev_type e = event_name eip6963requestProvider")
    case False
    then show ?thesis using other \<open>P s\<close> by blast
  next
    case True
    have "P (fold (deliver_request w e) ls s')" if "P s'" for ls s'
      using that
    proof (induction ls arbitrary: s')
      case Nil
      then show ?case by simp
    next
      case (Cons l ls)
      have "P (deliver_request w e l s')"
        using Cons.prems call other
        by (simp add: deliver_request_def CustomEvent_def split: callback.split)
      then show ?case using Cons.IH by simp
    qed
    then show ?thesis using True \<open>P s\<close> tr by (simp add: dispatch_request del: event_name.simps)
  qed
qed

lemma dispatch_window: "window (dispatchEvent w e s) = window s"
  by (rule dispatch_invariant [where P = "\<lambda>s'. window s' = window s"])
     (simp_all add: call_listener_frame)

lemma dispatch_objects: "objects (dispatchEvent w e s) = objects s"
  by (rule dispatch_invariant [where P = "\<lambda>s'. objects s' = objects s"])
     (simp_all add: call_listener_frame)

lemma dispatch_fn_count: "fn_count (dispatchEvent w e s) = fn_count s"
  by (rule dispatch_invariant [where P = "\<lambda>s'. fn_count s' = fn_count s"])
     (simp_all add: call_listener_frame)

lemma dispatch_heap_other:
  "a \<noteq> eip6963Providers \<Longrightarrow> heap (dispatchEvent w e s) a = heap s a"
  by (rule dispatch_invariant [where P = "\<lambda>s'. heap s' a = heap s a"])
     (simp_all add: call_listener_frame)

lemma dispatch_grows: "Map_grows (registry s) (registry (dispatchEvent w e s))"
proof (rule dispatch_invariant [where P = "\<lambda>s'. Map_grows (registry s) (registry s')"])
  fix e s'
  assume "Map_grows (registry s) (registry s')"
  then show "Map_grows (registry s) (registry (call_listener e s'))"
    using store_detail_grows [of "registry s'" "objects s'" "detail e"]
    by (simp add: registry_call_listener) (rule Map_grows_trans)
qed (simp_all add: Map_grows_refl)

lemma dispatch_distinct:
  "distinct (Map_keys (registry s)) \<Longrightarrow> distinct (Map_keys (registry (dispatchEvent w e s)))"
  by (rule dispatch_invariant [where P = "\<lambda>s'. distinct (Map_keys (registry s'))"])
     (simp_all add: registry_call_listener store_detail_distinct)


lemma objects_deliver: "objects (deliver e l s) = objects s"
  by (cases "snd l") (simp_all add: deliver_def call_listener_frame)

lemma registry_deliver:
  "registry (deliver e l s) =
     (if fst l = ev_type e \<and> is_StoreListener (snd l)
      then store_detail (objects s) (detail e) (registry s) else registry s)"
  by (cases "snd l") (simp_all add: deliver_def registry_call_listener)

lemma registry_fold_deliver:
  "registry (fold (deliver e) ls s) =
     (if filter (\<lambda>l. fst l = ev_type e \<and> is_StoreListener (snd l)) ls \<noteq> []
      then store_detail (objects s) (detail e) (registry s) else registry s)"
  by (induction ls arbitrary: s)
     (simp_all add: registry_deliver objects_deliver store_detail_idem)

lemma registry_dispatch_other:
  assumes "ev_type e \<noteq> event_name eip6963requestProvider"
  shows "registry (dispatchEvent w e s) =
     (if store_listeners w (ev_type e) \<noteq> []
      then store_detail (objects s) (detail e) (registry s) else registry s)"
  using assms
  by (simp add: dispatch_other registry_fold_deliver store_listeners_def del: event_name.simps)

lemma registry_dispatch_announce:
  assumes "subscribed w"
  shows "registry (dispatchEvent w (CustomEvent (event_name eip6963announceProvider) d) s) =
     store_detail (objects s) d (registry s)"
  using assms registry_dispatch_other [of "CustomEvent (event_name eip6963announceProvider) d" w s]
  by (simp add: subscribed_def CustomEvent_def)

lemma reported_dispatch_announce:
  assumes "detail_uuid (objects s) d = Inr u"
  shows "reported (dispatchEvent w (CustomEvent (event_name eip6963announceProvider) d) s) =
     reported s"
proof -
  let ?e = "CustomEvent (event_name eip6963announceProvider) d"
  have "ev_type ?e \<noteq> event_name eip6963requestProvider" by (simp add: CustomEvent_def)
  then have "dispatchEvent w ?e s =
      fold (deliver ?e) (listeners w) (s\<lparr>trace := trace s @ [Dispatch ?e]\<rparr>)"
    by (rule dispatch_other)
  moreover have "reported (fold (deliver ?e) (listeners w) (s\<lparr>trace := trace s @ [Dispatch ?e]\<rparr>))
      = reported s"
  proof -
    have "reported (fold (deliver ?e) (listeners w) (s\<lparr>trace := trace s @ [Dispatch ?e]\<rparr>))
        = reported s
      \<and> objects (fold (deliver ?e) (listeners w) (s\<lparr>trace := trace s @ [Dispatch ?e]\<rparr>))
        = objects s"
    proof (rule fold_deliver_invariant
        [where P = "\<lambda>s'. reported s' = reported s \<and> objects s' = objects s"])
      fix s' :: realm
      assume "reported s' = reported s \<and> objects s' = objects s"
      then show "reported (call_listener ?e s') = reported s
          \<and> objects (call_listener ?e s') = objects s"
        using assms call_listener_reported [of s' ?e u]
        by (simp add: CustomEvent_def call_listener_frame)
    qed simp
    then show ?thesis by simp
  qed
  ultimately show ?thesis by simp
qed

lemma dispatch_invariant_traced:
  assumes call: "\<And>e s. P s \<Longrightarrow> P (call_listener e s)"
    and tr: "\<And>e s. P s \<Longrightarrow> P (s\<lparr>trace := trace s @ [Dispatch e]\<rparr>)"
    and start: "P (s\<lparr>trace := trace s @ [Dispatch e]\<rparr>)"
  shows "P (dispatchEvent w e s)"
proof (cases "ev_type e = event_name eip6963requestProvider")
  case False
  then show ?thesis
    using start by (simp add: dispatch_other fold_deliver_invariant call del: event_name.simps)
next
  case True
  have "P (fold (deliver_request w e) ls s')" if "P s'" for ls s'
    using that
  proof (induction ls arbitrary: s')
    case Nil
    then show ?case by simp
  next
    case (Cons l ls)
    have "P (deliver_request w e l s')"
      using Cons.prems call dispatch_invariant [of P, OF call tr]
      by (simp add: deliver_request_def split: callback.split)
    then show ?case using Cons.IH by simp
  qed
  then show ?thesis using True start by (simp add: dispatch_request del: event_name.simps)
qed

lemma dispatch_trace: "\<exists>rest. trace (dispatchEvent w e s) = trace s @ Dispatch e # rest"
proof (rule dispatch_invariant_traced
    [where P = "\<lambda>s'. \<exists>rest. trace s' = trace s @ Dispatch e # rest"])
  fix e' and s' :: realm
  assume "\<exists>rest. trace s' = trace s @ Dispatch e # rest"
  then show "\<exists>rest. trace (s'\<lparr>trace := trace s' @ [Dispatch e']\<rparr>) = trace s @ Dispatch e # rest"
    by auto
qed (simp_all add: call_listener_frame)

subsection \<open>The request event\<close>

lemma registry_frame [simp]:
  "registry (s\<lparr>window := x\<rparr>) = registry s"
  "registry (s\<lparr>fn_count := n\<rparr>) = registry s"
  "registry (s\<lparr>reported := r\<rparr>) = registry s"
  "registry (s\<lparr>objects := os\<rparr>) = registry s"
  by (simp_all add: registry_def)

lemma responders_append: "responders (xs @ ys) = responders xs @ responders ys"
  by (induction xs rule: responders.induct) simp_all

lemma announcers_add:
  "announcers (addEventListener t (StoreListener i) w) = announcers w"
  by (simp add: announcers_def addEventListener_def responders_append)

lemma subscribed_add:
  "subscribed (addEventListener (event_name eip6963announceProvider) (StoreListener i) w)"
  by (force simp: subscribed_def addEventListener_def store_listeners_def filter_empty_conv
      simp del: event_name.simps)

lemma subscribed_add_other:
  "subscribed w \<Longrightarrow> subscribed (addEventListener t cb w)"
  by (auto simp: subscribed_def addEventListener_def store_listeners_def filter_empty_conv
      simp del: event_name.simps)

lemma store_detail_undefined [simp]: "store_detail os JUndefined m = m"
  by (simp add: store_detail_def detail_uuid_def)

lemma objects_deliver_request: "objects (deliver_request w e l s) = objects s"
  by (cases "snd l") (simp_all add: deliver_request_def call_listener_frame dispatch_objects)

lemma registry_deliver_request:
  assumes "subscribed w" and "ev_type e = event_name eip6963requestProvider"
    and "detail e = JUndefined"
  shows "registry (deliver_request w e l s) =
     fold (store_detail (objects s)) (responders [l]) (registry s)"
proof (cases l)
  case (Pair t cb)
  show ?thesis
  proof (cases cb)
    case (StoreListener i)
    with Pair assms show ?thesis
      by (simp add: deliver_request_def registry_call_listener del: event_name.simps)
  next
    case (Announcer d)
    with Pair assms show ?thesis
      by (simp add: deliver_request_def registry_dispatch_announce del: event_name.simps)
  qed
qed

lemma registry_fold_deliver_request:
  assumes "subscribed w" and "ev_type e = event_name eip6963requestProvider"
    and "detail e = JUndefined"
  shows "registry (fold (deliver_request w e) ls s) =
     fold (store_detail (objects s)) (responders ls) (registry s)"
proof (induction ls arbitrary: s)
  case Nil
  then show ?case by simp
next
  case (Cons l ls)
  have "responders (l # ls) = responders [l] @ responders ls"
    using responders_append [of "[l]" ls] by simp
  then show ?case
    using Cons.IH [of "deliver_request w e l s"] registry_deliver_request [OF assms, of l s]
    by (simp add: objects_deliver_request)
qed

lemma registry_dispatch_request:
  assumes "subscribed w"
  shows "registry (dispatchEvent w (Event (event_name eip6963requestProvider)) s) =
     fold (store_detail (objects s)) (announcers w) (registry s)"
  using registry_fold_deliver_request [OF assms, of "Event (event_name eip6963requestProvider)"]
  by (simp add: dispatch_request announcers_def Event_def)

lemma request_Some:
  assumes "window s = Some w"
  shows "requestEIP6963Providers s =
     (Inr eip6963Providers,
      dispatchEvent (addEventListener (event_name eip6963announceProvider) (StoreListener (fn_count s)) w)
        (Event (event_name eip6963requestProvider))
        (s\<lparr>window := Some (addEventListener (event_name eip6963announceProvider)
                              (StoreListener (fn_count s)) w),
           fn_count := Suc (fn_count s),
           trace := trace s @ [AddListener (event_name eip6963announceProvider)
                                 (StoreListener (fn_count s))]\<rparr>))"
  using assms by (simp add: requestEIP6963Providers_def Let_def del: event_name.simps)

lemma request_window:
  assumes "window s = Some w"
  shows "window (snd (requestEIP6963Providers s)) =
     Some (addEventListener (event_name eip6963announceProvider) (StoreListener (fn_count s)) w)"
  by (simp add: request_Some [OF assms] dispatch_window del: event_name.simps)

lemma request_fn_count:
  assumes "window s = Some w"
  shows "fn_count (snd (requestEIP6963Providers s)) = Suc (fn_count s)"
  by (simp add: request_Some [OF assms] dispatch_fn_count del: event_name.simps)

lemma request_objects: "objects (snd (requestEIP6963Providers s)) = objects s"
proof (cases "window s")
  case None
  then show ?thesis by (simp add: requestEIP6963Providers_def)
next
  case (Some w)
  show ?thesis
    by (simp add: request_Some [OF Some] dispatch_objects del: event_name.simps)
qed

lemma request_heap_other:
  assumes "a \<noteq> eip6963Providers"
  shows "heap (snd (requestEIP6963Providers s)) a = heap s a"
proof (cases "window s")
  case None
  then show ?thesis by (simp add: requestEIP6963Providers_def)
next
  case (Some w)
  show ?thesis
    by (simp add: request_Some [OF Some] dispatch_heap_other [OF assms] del: event_name.simps)
qed

lemma request_registry:
  assumes "window s = Some w"
  shows "registry (snd (requestEIP6963Providers s)) =
     fold (store_detail (objects s)) (announcers w) (registry s)"
  by (simp add: request_Some [OF assms] registry_dispatch_request subscribed_add announcers_add
      del: event_name.simps)

lemma request_trace:
  assumes "window s = Some w"
  shows "\<exists>rest. trace (snd (requestEIP6963Providers s)) =
     trace s @ AddListener (event_name eip6963announceProvider) (StoreListener (fn_count s))
       # Dispatch (Event (event_name eip6963requestProvider)) # rest"
proof -
  let ?w = "addEventListener (event_name eip6963announceProvider) (StoreListener (fn_count s)) w"
  let ?s1 = "s\<lparr>window := Some ?w, fn_count := Suc (fn_count s),
               trace := trace s @ [AddListener (event_name eip6963announceProvider)
                                     (StoreListener (fn_count s))]\<rparr>"
  obtain rest where "trace (dispatchEvent ?w (Event (event_name eip6963requestProvider)) ?s1) =
      trace ?s1 @ Dispatch (Event (event_name eip6963requestProvider)) # rest"
    using dispatch_trace by blast
  then show ?thesis by (simp add: request_Some [OF assms] del: event_name.simps)
qed

subsection \<open>Steps of the page\<close>

lemma listening_request:
  assumes "window s = Some w"
  shows "listening (snd (requestEIP6963Providers s))"
  by (simp add: listening_def request_window [OF assms] subscribed_add del: event_name.simps)

lemma listening_step: "listening s \<Longrightarrow> listening (step a s)"
proof (cases a)
  case Discover
  assume "listening s"
  then obtain w where "window s = Some w" by (auto simp: listening_def split: option.splits)
  with Discover show ?thesis by (simp add: listening_request)
next
  case (Dispatched e)
  assume "listening s"
  with Dispatched show ?thesis
    by (auto simp: listening_def dispatch_window split: option.splits)
next
  case (Assigned x p v)
  assume "listening s"
  with Assigned show ?thesis by (simp add: listening_def)
qed

lemma listening_run: "listening s \<Longrightarrow> listening (run acts s)"
  unfolding run_def by (induction acts arbitrary: s) (simp_all add: listening_step)

lemma run_append: "run (xs @ ys) s = run ys (run xs s)"
  by (simp add: run_def)

lemma run_Cons: "run (a # acts) s = run acts (step a s)"
  by (simp add: run_def)

lemma run_Nil: "run [] s = s"
  by (simp add: run_def)

lemma registry_step_announce:
  assumes "listening s"
  shows "registry (step (Dispatched (CustomEvent (event_name eip6963announceProvider) d)) s) =
     store_detail (objects s) d (registry s)"
  using assms
  by (auto simp: listening_def registry_dispatch_announce split: option.splits
      simp del: event_name.simps)

lemma objects_step_dispatched: "objects (step (Dispatched e) s) = objects s"
  by (simp add: dispatch_objects split: option.split)

lemma reported_step_announce:
  assumes "detail_uuid (objects s) d = Inr u"
  shows "reported (step (Dispatched (CustomEvent (event_name eip6963announceProvider) d)) s) =
     reported s"
  using reported_dispatch_announce [OF assms]
  by (simp split: option.splits del: event_name.simps)

lemma store_detail_readable:
  "detail_uuid os d = Inr k \<Longrightarrow> store_detail os d m = Map_set k d m"
  by (simp add: store_detail_def)

subsection \<open>Function objects\<close>

lemma made_before_Suc: "made_before n cb \<Longrightarrow> made_before (Suc n) cb"
  by (cases cb) simp_all

lemma fresh_not_registered:
  assumes "fresh_fns s" and "window s = Some w"
  shows "(t, StoreListener (fn_count s)) \<notin> set (listeners w)"
proof
  assume "(t, StoreListener (fn_count s)) \<in> set (listeners w)"
  moreover have "\<forall>l \<in> set (listeners w). made_before (fn_count s) (snd l)"
    using assms by (simp add: fresh_fns_def list_all_iff)
  ultimately have "made_before (fn_count s) (StoreListener (fn_count s))" by fastforce
  then show False by simp
qed

lemma request_appends:
  assumes "fresh_fns s" and "window s = Some w"
  shows "window (snd (requestEIP6963Providers s)) =
     Some (w\<lparr>listeners := listeners w @
              [(event_name eip6963announceProvider, StoreListener (fn_count s))]\<rparr>)"
  using fresh_not_registered [OF assms] request_window [OF assms(2)]
  by (simp add: addEventListener_def del: event_name.simps)

lemma request_fresh:
  assumes "fresh_fns s"
  shows "fresh_fns (snd (requestEIP6963Providers s))"
proof (cases "window s")
  case None
  then show ?thesis using assms by (simp add: requestEIP6963Providers_def)
next
  case (Some w)
  have "\<forall>l \<in> set (listeners w). made_before (fn_count s) (snd l)"
    using assms Some by (simp add: fresh_fns_def list_all_iff)
  then have "\<forall>l \<in> set (listeners w). made_before (Suc (fn_count s)) (snd l)"
    using made_before_Suc by blast
  then show ?thesis
    using request_appends [OF assms Some] request_fn_count [OF Some]
    by (simp add: fresh_fns_def list_all_iff)
qed

lemma request_listener_count:
  assumes "fresh_fns s" and "window s = Some w"
  shows "listener_count (snd (requestEIP6963Providers s)) = Suc (listener_count s)"
  using request_appends [OF assms] assms(2)
  by (simp add: listener_count_def store_listeners_def del: event_name.simps)

lemma request_keeps_window:
  "window s \<noteq> None \<Longrightarrow> window (snd (requestEIP6963Providers s)) \<noteq> None"
  using request_window by fastforce

subsection \<open>Invariants of the registry\<close>

lemma request_registry_invariant:
  assumes "\<And>w e s. P (registry s) \<Longrightarrow> P (registry (dispatchEvent w e s))"
    and "P (registry s)"
  shows "P (registry (snd (requestEIP6963Providers s)))"
proof (cases "window s")
  case None
  then show ?thesis using assms(2) by (simp add: requestEIP6963Providers_def)
next
  case (Some w)
  show ?thesis
    using assms by (simp add: request_Some [OF Some] del: event_name.simps)
qed

lemma step_registry_invariant:
  assumes "\<And>w e s. P (registry s) \<Longrightarrow> P (registry (dispatchEvent w e s))"
    and "P (registry s)"
  shows "P (registry (step a s))"
proof (cases a)
  case Discover
  then show ?thesis using request_registry_invariant [of P, OF assms] by simp
next
  case (Dispatched e)
  then show ?thesis using assms by (simp split: option.split)
next
  case (Assigned x p v)
  then show ?thesis using assms(2) by simp
qed

lemma step_grows: "Map_grows (registry s) (registry (step a s))"
proof (rule step_registry_invariant [where P = "\<lambda>m. Map_grows (registry s) m"])
  fix w e and s' :: realm
  assume "Map_grows (registry s) (registry s')"
  then show "Map_grows (registry s) (registry (dispatchEvent w e s'))"
    using dispatch_grows [of s' w e] by (rule Map_grows_trans)
qed (rule Map_grows_refl)

lemma step_distinct:
  "distinct (Map_keys (registry s)) \<Longrightarrow> distinct (Map_keys (registry (step a s)))"
  by (rule step_registry_invariant [where P = "\<lambda>m. distinct (Map_keys m)"])
     (simp_all add: dispatch_distinct)

lemma fold_store_detail_keys:
  "set (Map_keys (fold (store_detail os) ds m)) =
     set (Map_keys m) \<union> {k. \<exists>d \<in> set ds. detail_uuid os d = Inr k}"
proof (induction ds arbitrary: m)
  case Nil
  then show ?case by simp
next
  case (Cons d ds)
  have "set (Map_keys (store_detail os d m)) = set (Map_keys m) \<union> {k. detail_uuid os d = Inr k}"
    by (cases "detail_uuid os d") (simp_all add: store_detail_def Map_set_keys)
  then show ?case using Cons.IH [of "store_detail os d m"] by auto
qed

lemma fold_store_detail_distinct:
  "distinct (Map_keys m) \<Longrightarrow> distinct (Map_keys (fold (store_detail os) ds m))"
  by (induction ds arbitrary: m) (simp_all add: store_detail_distinct)

lemma fold_store_detail_size:
  assumes "distinct (Map_keys m)" and "\<forall>d \<in> set ds. \<exists>k. detail_uuid os d = Inr k"
  shows "Map_size (fold (store_detail os) ds m) = card (Inr ` set (Map_keys m) \<union> detail_uuid os ` set ds)"
proof -
  let ?m = "fold (store_detail os) ds m"
  have "Inr ` {k. \<exists>d \<in> set ds. detail_uuid os d = Inr k} = detail_uuid os ` set ds"
    using assms(2) by force
  then have "(Inr :: jsval \<Rightarrow> js_error + jsval) ` set (Map_keys ?m) =
      Inr ` set (Map_keys m) \<union> detail_uuid os ` set ds"
    by (simp add: fold_store_detail_keys image_Un)
  moreover have "card ((Inr :: jsval \<Rightarrow> js_error + jsval) ` set (Map_keys ?m)) =
      card (set (Map_keys ?m))"
    by (rule card_image) (simp add: inj_on_def)
  moreover have "card (set (Map_keys ?m)) = length (Map_keys ?m)"
    using fold_store_detail_distinct [OF assms(1)] by (rule distinct_card)
  ultimately show ?thesis by (simp add: Map_size_def Map_keys_def)
qed

lemma registry_run_announcements:
  assumes "listening s"
  shows "registry (run (map (\<lambda>d. Dispatched (CustomEvent (event_name eip6963announceProvider) d)) ds) s)
     = fold (store_detail (objects s)) ds (registry s)"
  using assms
proof (induction ds arbitrary: s)
  case Nil
  then show ?case by (simp add: run_Nil)
next
  case (Cons d ds)
  let ?s1 = "step (Dispatched (CustomEvent (event_name eip6963announceProvider) d)) s"
  have "listening ?s1" using Cons.prems by (rule listening_step)
  then show ?case
    using Cons.IH [of ?s1] registry_step_announce [OF Cons.prems, of d]
      objects_step_dispatched [of "CustomEvent (event_name eip6963announceProvider) d" s]
    by (simp add: run_Cons del: event_name.simps step.simps)
qed

lemma responders_Cons_empty:
  assumes "responders ((t, cb) # ls) = []"
  shows "responders ls = []"
    and "cb = Announcer d \<Longrightarrow> t \<noteq> event_name eip6963requestProvider"
  using assms by (cases cb; simp split: if_splits)+

lemma trace_fold_deliver_request:
  assumes "ev_type e = event_name eip6963requestProvider"
  shows "responders ls = [] \<Longrightarrow> trace (fold (deliver_request w e) ls s) = trace s"
proof (induction ls arbitrary: s)
  case Nil
  then show ?case by simp
next
  case (Cons l ls)
  obtain t cb where l: "l = (t, cb)" by (cases l)
  have tail: "responders ls = []"
    using Cons.prems l responders_Cons_empty(1) by blast
  have "trace (deliver_request w e l s) = trace s"
  proof (cases cb)
    case (StoreListener i)
    then show ?thesis by (simp add: l deliver_request_def call_listener_frame)
  next
    case (Announcer d)
    then have "t \<noteq> event_name eip6963requestProvider"
      using Cons.prems l responders_Cons_empty(2) by blast
    then show ?thesis using assms by (simp add: l deliver_request_def)
  qed
  then show ?case using Cons.IH [OF tail] by simp
qed

lemma request_trace_quiet:
  assumes "window s = Some w" and "announcers w = []"
  shows "trace (snd (requestEIP6963Providers s)) =
     trace s @ [AddListener (event_name eip6963announceProvider) (StoreListener (fn_count s)),
                Dispatch \<lparr>ev_type = event_name eip6963requestProvider, detail = JUndefined\<rparr>]"
proof -
  let ?w = "addEventListener (event_name eip6963announceProvider) (StoreListener (fn_count s)) w"
  have "responders (listeners ?w) = []"
    using assms(2) announcers_add [of "event_name eip6963announceProvider" "fn_count s" w]
    by (simp add: announcers_def)
  then show ?thesis
    using trace_fold_deliver_request [of "Event (event_name eip6963requestProvider)" "listeners ?w" ?w]
    by (simp add: request_Some [OF assms(1)] dispatch_request Event_def del: event_name.simps)
qed


lemma fold_store_detail_other:
  assumes "\<forall>d' \<in> set ds. detail_uuid os d' \<noteq> Inr u"
  shows "Map_get (fold (store_detail os) ds m) u = Map_get m u"
  using assms
proof (induction ds arbitrary: m)
  case Nil
  then show ?case by simp
next
  case (Cons d ds)
  have "Map_get (store_detail os d m) u = Map_get m u"
  proof (cases "detail_uuid os d")
    case (Inl err)
    then show ?thesis by (simp add: store_detail_def)
  next
    case (Inr k)
    then have "u \<noteq> k" using Cons.prems by auto
    then show ?thesis using Inr by (simp add: store_detail_def Map_get_set_other)
  qed
  then show ?case using Cons by simp
qed

lemma get_prop_nullish: "nullish v \<Longrightarrow> get_prop os v p = Inl TypeError"
  by (cases v) simp_all

lemma get_prop_value: "\<not> nullish v \<Longrightarrow> \<exists>x. get_prop os v p = Inr x"
  by (cases v) simp_all

subsection \<open>Realms reached from the loading of the module\<close>

lemma run_distinct:
  "distinct (Map_keys (registry s)) \<Longrightarrow> distinct (Map_keys (registry (run acts s)))"
  unfolding run_def by (induction acts arbitrary: s) (simp_all add: step_distinct)

lemma reachable_distinct: "distinct (Map_keys (registry (run acts (module_init w os))))"
  by (rule run_distinct) (simp add: module_init_def registry_def Map_keys_def)

lemma step_fresh: "fresh_fns s \<Longrightarrow> fresh_fns (step a s)"
proof (cases a)
  case Discover
  assume "fresh_fns s"
  with Discover show ?thesis by (simp add: request_fresh)
next
  case (Dispatched e)
  assume "fresh_fns s"
  with Dispatched show ?thesis
    by (simp add: fresh_fns_def dispatch_window dispatch_fn_count split: option.splits)
next
  case (Assigned x p v)
  assume "fresh_fns s"
  with Assigned show ?thesis by (simp add: fresh_fns_def split: option.splits)
qed

lemma run_fresh: "fresh_fns s \<Longrightarrow> fresh_fns (run acts s)"
  unfolding run_def by (induction acts arbitrary: s) (simp_all add: step_fresh)

subsection \<open>Keys and the objects they were read from\<close>








section \<open>Properties\<close>

subsection \<open>The environment guard\<close>

text \<open>
  C1. Where \<open>window\<close> is absent the discovery operation fails at once with the
  window-unavailable error and the realm it leaves is the realm it found: the trace shows
  no \<open>addEventListener\<close> and no \<open>dispatchEvent\<close>, and the heap, hence the registry,
  is unchanged.
\<close>

theorem request_without_window:
  assumes "window s = None"
  shows "requestEIP6963Providers s = (Inl window_unavailable, s)"
  using assms by (simp add: requestEIP6963Providers_def)

theorem request_without_window_witness:
  "window loaded_headless = None \<and>
   requestEIP6963Providers loaded_headless = (Inl window_unavailable, loaded_headless)"
proof -
  have h: "window loaded_headless = None" by (simp add: loaded_headless_def module_init_def)
  show ?thesis using h request_without_window [OF h] by simp
qed

subsection \<open>Event type tags\<close>

text \<open>
  C7, as amended. The type tags carry the prefix of the standard: the announce event's
  tag is \<open>eip6963:announceProvider\<close> and the request event's tag is
  \<open>eip6963:requestProvider\<close>.
\<close>

theorem event_name_values:
  "event_name eip6963announceProvider = ''eip6963:announceProvider'' \<and>
   event_name eip6963requestProvider = ''eip6963:requestProvider''"
  by simp

text \<open>The tags are not the bare words \<open>announceProvider\<close> and \<open>requestProvider\<close>.\<close>

theorem event_name_bare_counterexample:
  "\<not> (event_name eip6963announceProvider = ''announceProvider'' \<and>
      event_name eip6963requestProvider = ''requestProvider'')"
  by simp

subsection \<open>Re-announcement\<close>

text \<open>
  C2. With a listener of this module registered, an announce event for a detail \<open>d1\<close>
  followed by one for \<open>d2\<close>, both with \<open>info.uuid = k\<close>, leaves \<open>d2\<close> as the
  entry of \<open>k\<close> and no second entry for \<open>k\<close>; neither announcement is reported as an
  error.
\<close>

theorem reannounce_overwrites:
  assumes "listening s" and "distinct (Map_keys (registry s))"
    and "detail_uuid (objects s) d1 = Inr k" and "detail_uuid (objects s) d2 = Inr k"
  shows "Map_get (registry (run [Dispatched (CustomEvent (event_name eip6963announceProvider) d1),
                                 Dispatched (CustomEvent (event_name eip6963announceProvider) d2)] s)) k
           = Some d2
       \<and> filter (\<lambda>p. fst p = k)
            (registry (run [Dispatched (CustomEvent (event_name eip6963announceProvider) d1),
                            Dispatched (CustomEvent (event_name eip6963announceProvider) d2)] s))
           = [(k, d2)]
       \<and> reported (run [Dispatched (CustomEvent (event_name eip6963announceProvider) d1),
                        Dispatched (CustomEvent (event_name eip6963announceProvider) d2)] s)
           = reported s"
proof -
  let ?a1 = "Dispatched (CustomEvent (event_name eip6963announceProvider) d1)"
  let ?a2 = "Dispatched (CustomEvent (event_name eip6963announceProvider) d2)"
  let ?s1 = "step ?a1 s"
  have run: "run [?a1, ?a2] s = step ?a2 ?s1" by (simp add: run_def)
  have l1: "listening ?s1" using assms(1) by (rule listening_step)
  have o1: "objects ?s1 = objects s" by (rule objects_step_dispatched)
  have u2: "detail_uuid (objects ?s1) d2 = Inr k" using assms(4) o1 by simp
  have r1: "registry ?s1 = Map_set k d1 (registry s)"
    using registry_step_announce [OF assms(1)] assms(3) by (simp add: store_detail_readable)
  have r2: "registry (step ?a2 ?s1) = Map_set k d2 (registry s)"
    using registry_step_announce [OF l1, of d2] u2 r1
    by (simp add: store_detail_readable Map_set_idem del: step.simps)
  have rep: "reported (step ?a2 ?s1) = reported s"
    using reported_step_announce [OF assms(3)] reported_step_announce [OF u2]
    by (simp del: step.simps)
  show ?thesis
    unfolding run r2 rep
    using assms(2) by (simp add: Map_get_set_same Map_set_filter_same)
qed

theorem reannounce_overwrites_witness:
  "listening discovered \<and> distinct (Map_keys (registry discovered))
   \<and> detail_uuid (objects discovered) wallet1 = Inr (JString ''abc'')
   \<and> detail_uuid (objects discovered) wallet1_renamed = Inr (JString ''abc'')
   \<and> Map_get (registry (run [Dispatched (CustomEvent (event_name eip6963announceProvider) wallet1),
                  Dispatched (CustomEvent (event_name eip6963announceProvider) wallet1_renamed)]
                 discovered)) (JString ''abc'') = Some wallet1_renamed
   \<and> filter (\<lambda>p. fst p = JString ''abc'')
        (registry (run [Dispatched (CustomEvent (event_name eip6963announceProvider) wallet1),
                  Dispatched (CustomEvent (event_name eip6963announceProvider) wallet1_renamed)]
                 discovered)) = [(JString ''abc'', wallet1_renamed)]"
proof -
  have h1: "listening discovered" by code_simp
  have h2: "distinct (Map_keys (registry discovered))" by code_simp
  have h3: "detail_uuid (objects discovered) wallet1 = Inr (JString ''abc'')" by code_simp
  have h4: "detail_uuid (objects discovered) wallet1_renamed = Inr (JString ''abc'')" by code_simp
  show ?thesis
    using reannounce_overwrites [OF h1 h2 h3 h4] h1 h2 h3 h4 by blast
qed

subsection \<open>The live mapping\<close>

text \<open>
  C3. A discovery call that returns gives the address of the module's one \<open>Map\<close>,
  whatever the realm; an announcement dispatched after the call, and after anything else
  that happened in between, is read through that address without calling again, under
  the uuid that the announced detail has when it is announced.
\<close>

theorem discovery_returns_live_map:
  assumes "window s = Some w"
    and "detail_uuid (objects (run acts (snd (requestEIP6963Providers s)))) d = Inr k"
  shows "\<exists>r. fst (requestEIP6963Providers s) = Inr r \<and> r = eip6963Providers
       \<and> Map_get (heap (run (acts @ [Dispatched (CustomEvent (event_name eip6963announceProvider) d)])
                          (snd (requestEIP6963Providers s))) r) k = Some d"
proof -
  let ?s1 = "snd (requestEIP6963Providers s)"
  let ?s2 = "run acts ?s1"
  let ?a = "Dispatched (CustomEvent (event_name eip6963announceProvider) d)"
  have "listening ?s1" using assms(1) by (rule listening_request)
  then have "listening ?s2" by (rule listening_run)
  then have "registry (step ?a ?s2) = Map_set k d (registry ?s2)"
    using registry_step_announce [of ?s2 d] assms(2) by (simp add: store_detail_readable)
  then have "Map_get (heap (run (acts @ [?a]) ?s1) eip6963Providers) k = Some d"
    by (simp add: run_append run_Cons run_Nil registry_def Map_get_set_same del: event_name.simps)
  moreover have "fst (requestEIP6963Providers s) = Inr eip6963Providers"
    by (simp add: request_Some [OF assms(1)])
  ultimately show ?thesis by blast
qed

theorem discovery_returns_live_map_witness:
  "window (loaded empty_page) = Some empty_page
   \<and> detail_uuid (objects (run [Discover] (snd (requestEIP6963Providers (loaded empty_page)))))
        wallet1 = Inr (JString ''abc'')
   \<and> (\<exists>r. fst (requestEIP6963Providers (loaded empty_page)) = Inr r
        \<and> r = eip6963Providers
        \<and> Map_get (heap (run ([Discover] @
                                [Dispatched (CustomEvent (event_name eip6963announceProvider) wallet1)])
                          (snd (requestEIP6963Providers (loaded empty_page)))) r)
             (JString ''abc'') = Some wallet1)"
proof -
  have h1: "window (loaded empty_page) = Some empty_page"
    by (simp add: loaded_def module_init_def)
  have h2: "detail_uuid (objects (run [Discover] (snd (requestEIP6963Providers (loaded empty_page)))))
        wallet1 = Inr (JString ''abc'')" by code_simp
  show ?thesis
    using discovery_returns_live_map [OF h1 h2] h1 h2 by blast
qed

subsection \<open>Listeners after repeated calls\<close>

text \<open>
  C4, as amended. Every discovery call on a page makes a new function object and registers
  it: after \<open>n\<close> calls the announce event has \<open>n\<close> more listeners of this module than
  before, so exactly \<open>n\<close> on a page that had none.
\<close>

theorem each_call_adds_a_listener:
  assumes "window s \<noteq> None" and "fresh_fns s"
  shows "listener_count (run (replicate n Discover) s) = listener_count s + n"
  using assms
proof (induction n arbitrary: s)
  case 0
  then show ?case by (simp add: run_def)
next
  case (Suc n)
  let ?s1 = "snd (requestEIP6963Providers s)"
  obtain w where w: "window s = Some w" using Suc.prems(1) by blast
  have "listener_count (run (replicate n Discover) ?s1) = listener_count ?s1 + n"
    using Suc.prems by (intro Suc.IH request_keeps_window request_fresh)
  then show ?case
    using request_listener_count [OF Suc.prems(2) w] by (simp add: run_Cons)
qed

theorem each_call_adds_a_listener_witness:
  "window (loaded empty_page) \<noteq> None \<and> fresh_fns (loaded empty_page)
   \<and> listener_count (loaded empty_page) = 0
   \<and> listener_count (run (replicate 3 Discover) (loaded empty_page)) = 3"
proof -
  have h1: "window (loaded empty_page) \<noteq> None" by (simp add: loaded_def module_init_def)
  have h2: "fresh_fns (loaded empty_page)" by code_simp
  have h3: "listener_count (loaded empty_page) = 0" by code_simp
  show ?thesis
    using each_call_adds_a_listener [OF h1 h2, of 3] h1 h2 h3 by simp
qed

text \<open>Two calls on a fresh page leave two listeners, not one.\<close>

theorem second_call_adds_listener_counterexample:
  "listener_count (run [Discover, Discover] (loaded empty_page)) = 2
   \<and> listener_count (run [Discover, Discover] (loaded empty_page)) \<noteq> 1"
  by code_simp

subsection \<open>Growth of the registry\<close>

text \<open>
  C5. No step of the page (a discovery call, a dispatched event, an assignment to an
  object) removes a key of the registry or makes it smaller. With a listener registered,
  after a sequence of announce events whose details have a readable \<open>info.uuid\<close> the
  size of the registry is the number of distinct identifiers seen, those already in the
  registry included; from an empty registry and pairwise distinct identifiers it is the
  length of the sequence; and it is the same for every other order of the same
  announcements.
\<close>

theorem registry_never_shrinks:
  assumes "listening s" and "distinct (Map_keys (registry s))"
    and "\<forall>d \<in> set ds. \<exists>k. detail_uuid (objects s) d = Inr k"
  shows "Map_grows (registry s') (registry (step a s'))
       \<and> Map_size (registry (run (map (\<lambda>d. Dispatched (CustomEvent (event_name eip6963announceProvider) d)) ds) s))
           = card (Inr ` set (Map_keys (registry s)) \<union> detail_uuid (objects s) ` set ds)
       \<and> (registry s = [] \<and> distinct (map (detail_uuid (objects s)) ds) \<longrightarrow>
           Map_size (registry (run (map (\<lambda>d. Dispatched (CustomEvent (event_name eip6963announceProvider) d)) ds) s))
             = length ds)
       \<and> (\<forall>ds'. set ds' = set ds \<longrightarrow>
           Map_size (registry (run (map (\<lambda>d. Dispatched (CustomEvent (event_name eip6963announceProvider) d)) ds') s))
             = Map_size (registry (run (map (\<lambda>d. Dispatched (CustomEvent (event_name eip6963announceProvider) d)) ds) s)))"
proof -
  let ?run = "\<lambda>ds. registry (run (map (\<lambda>d. Dispatched (CustomEvent (event_name eip6963announceProvider) d)) ds) s)"
  have size: "Map_size (?run ds') =
      card (Inr ` set (Map_keys (registry s)) \<union> detail_uuid (objects s) ` set ds')"
    if "set ds' = set ds" for ds'
    using that assms fold_store_detail_size [of "registry s" ds' "objects s"]
    by (simp add: registry_run_announcements del: event_name.simps)
  have "Map_size (?run ds) = length ds"
    if "registry s = []" and "distinct (map (detail_uuid (objects s)) ds)"
  proof -
    have "card (detail_uuid (objects s) ` set ds) = length ds"
      using that(2) distinct_card [of "map (detail_uuid (objects s)) ds"] by simp
    then show ?thesis using size [of ds] that(1) by (simp add: Map_keys_def)
  qed
  moreover have "\<forall>ds'. set ds' = set ds \<longrightarrow> Map_size (?run ds') = Map_size (?run ds)"
    using size by simp
  ultimately show ?thesis using step_grows size [of ds] by blast
qed

theorem registry_never_shrinks_witness:
  "listening discovered \<and> distinct (Map_keys (registry discovered))
   \<and> detail_uuid (objects discovered) wallet1 = Inr (JString ''abc'')
   \<and> detail_uuid (objects discovered) numeric_uuid = Inr (JNumber 7)
   \<and> registry discovered = []
   \<and> distinct (map (detail_uuid (objects discovered)) [wallet1, numeric_uuid])
   \<and> Map_size (registry (run (map (\<lambda>d. Dispatched (CustomEvent (event_name eip6963announceProvider) d))
                                [wallet1, numeric_uuid]) discovered)) = length [wallet1, numeric_uuid]
   \<and> Map_grows (registry discovered) (registry (step Discover discovered))"
proof -
  have h1: "listening discovered" by code_simp
  have h2: "distinct (Map_keys (registry discovered))" by code_simp
  have u1: "detail_uuid (objects discovered) wallet1 = Inr (JString ''abc'')" by code_simp
  have u2: "detail_uuid (objects discovered) numeric_uuid = Inr (JNumber 7)" by code_simp
  have h3: "\<forall>d \<in> set [wallet1, numeric_uuid]. \<exists>k. detail_uuid (objects discovered) d = Inr k"
    using u1 u2 by simp
  have h4: "registry discovered = []" by code_simp
  have h5: "distinct (map (detail_uuid (objects discovered)) [wallet1, numeric_uuid])"
    using u1 u2 by simp
  show ?thesis
    using registry_never_shrinks [OF h1 h2 h3, of discovered Discover] h1 h2 u1 u2 h4 h5 by blast
qed

subsection \<open>Announcers that answer during the dispatch\<close>

text \<open>
  C6, as amended. A discovery call registers its listener before it dispatches the
  request event. A wallet that answers during the dispatch with detail \<open>d\<close> and uuid
  \<open>u\<close> has the entry \<open>u \<mapsto> d\<close> in the mapping the call returns, provided no wallet
  answering later in the same dispatch announces the same \<open>u\<close>.
\<close>

theorem synchronous_announcement_recorded:
  assumes "window s = Some w" and "announcers w = ds1 @ d # ds2"
    and "detail_uuid (objects s) d = Inr u"
    and "\<forall>d' \<in> set ds2. detail_uuid (objects s) d' \<noteq> Inr u"
  shows "(\<exists>rest. trace (snd (requestEIP6963Providers s)) =
            trace s @ AddListener (event_name eip6963announceProvider) (StoreListener (fn_count s))
              # Dispatch (Event (event_name eip6963requestProvider)) # rest)
       \<and> (\<exists>r. fst (requestEIP6963Providers s) = Inr r
             \<and> Map_get (heap (snd (requestEIP6963Providers s)) r) u = Some d)"
proof -
  let ?m1 = "fold (store_detail (objects s)) ds1 (registry s)"
  have "registry (snd (requestEIP6963Providers s)) =
      fold (store_detail (objects s)) ds2 (Map_set u d ?m1)"
    using request_registry [OF assms(1)] assms(2,3) by (simp add: store_detail_readable)
  then have "Map_get (registry (snd (requestEIP6963Providers s))) u = Some d"
    using fold_store_detail_other [OF assms(4)] by (simp add: Map_get_set_same)
  moreover have "fst (requestEIP6963Providers s) = Inr eip6963Providers"
    by (simp add: request_Some [OF assms(1)])
  ultimately show ?thesis
    using request_trace [OF assms(1)] by (simp add: registry_def del: event_name.simps)
qed

theorem synchronous_announcement_recorded_witness:
  "window (loaded mixed_page) = Some mixed_page
   \<and> announcers mixed_page = [] @ wallet1 # [numeric_uuid]
   \<and> detail_uuid (objects (loaded mixed_page)) wallet1 = Inr (JString ''abc'')
   \<and> detail_uuid (objects (loaded mixed_page)) numeric_uuid \<noteq> Inr (JString ''abc'')
   \<and> registry (snd (requestEIP6963Providers (loaded mixed_page)))
       = [(JString ''abc'', wallet1), (JNumber 7, numeric_uuid)]
   \<and> (\<exists>r. fst (requestEIP6963Providers (loaded mixed_page)) = Inr r
         \<and> Map_get (heap (snd (requestEIP6963Providers (loaded mixed_page))) r)
              (JString ''abc'') = Some wallet1)"
proof -
  have h1: "window (loaded mixed_page) = Some mixed_page"
    by (simp add: loaded_def module_init_def)
  have h2: "announcers mixed_page = [] @ wallet1 # [numeric_uuid]" by code_simp
  have h3: "detail_uuid (objects (loaded mixed_page)) wallet1 = Inr (JString ''abc'')"
    by code_simp
  have u: "detail_uuid (objects (loaded mixed_page)) numeric_uuid \<noteq> Inr (JString ''abc'')"
    by code_simp
  then have h4: "\<forall>d' \<in> set [numeric_uuid].
      detail_uuid (objects (loaded mixed_page)) d' \<noteq> Inr (JString ''abc'')" by simp
  have r: "registry (snd (requestEIP6963Providers (loaded mixed_page)))
       = [(JString ''abc'', wallet1), (JNumber 7, numeric_uuid)]" by code_simp
  show ?thesis
    using synchronous_announcement_recorded [OF h1 h2 h3 h4] h1 h2 h3 u r by blast
qed

text \<open>
  Two wallets answer the same request with the same uuid: the mapping returned holds the
  detail of the second, not of the first.
\<close>

theorem overwritten_announcement_counterexample:
  "window (loaded two_wallet_page) = Some two_wallet_page
   \<and> announcers two_wallet_page = [wallet1, wallet1_renamed]
   \<and> detail_uuid (objects (loaded two_wallet_page)) wallet1 = Inr (JString ''abc'')
   \<and> registry (snd (requestEIP6963Providers (loaded two_wallet_page)))
       = [(JString ''abc'', wallet1_renamed)]
   \<and> Map_get (registry (snd (requestEIP6963Providers (loaded two_wallet_page))))
       (JString ''abc'') \<noteq> Some wallet1"
  by code_simp

subsection \<open>Malformed announcements\<close>

text \<open>
  C8, as amended. The listener stores the detail as it is, under \<open>detail.info.uuid\<close>
  whatever that value is, and throws nothing, whenever \<open>detail.info\<close> can be read and
  is neither \<open>undefined\<close> nor \<open>null\<close>. When \<open>detail\<close> or \<open>detail.info\<close> is
  \<open>undefined\<close> or \<open>null\<close> the listener throws a TypeError and stores nothing; the
  DOM reports the exception. The discovery operation itself fails only where \<open>window\<close>
  is absent.
\<close>

theorem listener_stores_or_throws:
  "(\<forall>i. get_prop (objects s) (detail e) ''info'' = Inr i \<and> \<not> nullish i \<longrightarrow>
      (\<exists>u. get_prop (objects s) i ''uuid'' = Inr u
          \<and> announce_listener e s =
              Inr (s\<lparr>heap := (heap s)(eip6963Providers := Map_set u (detail e) (registry s))\<rparr>)
          \<and> reported (call_listener e s) = reported s))
   \<and> (nullish (detail e)
        \<or> (\<exists>i. get_prop (objects s) (detail e) ''info'' = Inr i \<and> nullish i) \<longrightarrow>
        announce_listener e s = Inl TypeError
        \<and> call_listener e s = s\<lparr>reported := reported s @ [TypeError]\<rparr>)
   \<and> (\<forall>err. fst (requestEIP6963Providers s) = Inl err \<longrightarrow>
        window s = None \<and> err = window_unavailable)"
proof -
  have stores: "\<exists>u. get_prop (objects s) i ''uuid'' = Inr u
          \<and> announce_listener e s =
              Inr (s\<lparr>heap := (heap s)(eip6963Providers := Map_set u (detail e) (registry s))\<rparr>)
          \<and> reported (call_listener e s) = reported s"
    if info: "get_prop (objects s) (detail e) ''info'' = Inr i" and shaped: "\<not> nullish i" for i
  proof -
    obtain u where u: "get_prop (objects s) i ''uuid'' = Inr u"
      using shaped get_prop_value by blast
    then have "detail_uuid (objects s) (detail e) = Inr u"
      using info by (simp add: detail_uuid_def)
    then show ?thesis
      using u by (simp add: announce_listener_conv call_listener_def)
  qed
  have throws: "announce_listener e s = Inl TypeError
        \<and> call_listener e s = s\<lparr>reported := reported s @ [TypeError]\<rparr>"
    if "nullish (detail e)
        \<or> (\<exists>i. get_prop (objects s) (detail e) ''info'' = Inr i \<and> nullish i)"
  proof -
    have "detail_uuid (objects s) (detail e) = Inl TypeError"
      using that by (auto simp: detail_uuid_def get_prop_nullish)
    then show ?thesis by (simp add: announce_listener_conv call_listener_def)
  qed
  have "window s = None \<and> err = window_unavailable"
    if "fst (requestEIP6963Providers s) = Inl err" for err
    using that by (cases "window s") (simp_all add: requestEIP6963Providers_def Let_def)
  then show ?thesis using stores throws by blast
qed

theorem listener_stores_or_throws_witness:
  "get_prop (objects discovered)
      (detail (CustomEvent (event_name eip6963announceProvider) numeric_uuid)) ''info''
     = Inr (JObject 8)
   \<and> \<not> nullish (JObject 8)
   \<and> \<not> EIP6963AnnounceProviderEvent (objects discovered)
         (CustomEvent (event_name eip6963announceProvider) numeric_uuid)
   \<and> registry (call_listener (CustomEvent (event_name eip6963announceProvider) numeric_uuid) discovered)
       = [(JNumber 7, numeric_uuid)]
   \<and> (\<exists>u. get_prop (objects discovered) (JObject 8) ''uuid'' = Inr u
        \<and> announce_listener (CustomEvent (event_name eip6963announceProvider) numeric_uuid) discovered =
            Inr (discovered\<lparr>heap := (heap discovered)
                   (eip6963Providers := Map_set u
                      (detail (CustomEvent (event_name eip6963announceProvider) numeric_uuid))
                      (registry discovered))\<rparr>)
        \<and> reported (call_listener (CustomEvent (event_name eip6963announceProvider) numeric_uuid)
             discovered) = reported discovered)"
proof -
  have h1: "get_prop (objects discovered)
      (detail (CustomEvent (event_name eip6963announceProvider) numeric_uuid)) ''info''
     = Inr (JObject 8)" by code_simp
  have h2: "\<not> nullish (JObject 8)" by simp
  have h3: "\<not> EIP6963AnnounceProviderEvent (objects discovered)
         (CustomEvent (event_name eip6963announceProvider) numeric_uuid)"
    by code_simp
  have h4: "registry (call_listener (CustomEvent (event_name eip6963announceProvider) numeric_uuid) discovered)
       = [(JNumber 7, numeric_uuid)]" by code_simp
  show ?thesis
    using listener_stores_or_throws
      [of discovered "CustomEvent (event_name eip6963announceProvider) numeric_uuid"] h1 h2 h3 h4
    by blast
qed

text \<open>
  An announce event whose detail has no \<open>info\<close>, and one made with \<open>new Event\<close>
  (no detail): the listener throws and the registry stays empty.
\<close>

theorem missing_info_counterexample:
  "announce_listener (CustomEvent (event_name eip6963announceProvider) no_info) discovered
     = Inl TypeError
   \<and> registry (step (Dispatched (CustomEvent (event_name eip6963announceProvider) no_info)) discovered)
       = []
   \<and> reported (step (Dispatched (CustomEvent (event_name eip6963announceProvider) no_info)) discovered)
       = [TypeError]
   \<and> announce_listener (Event (event_name eip6963announceProvider)) discovered = Inl TypeError"
proof -
  have "detail_uuid (objects discovered) no_info = Inl TypeError" by code_simp
  then have "announce_listener (CustomEvent (event_name eip6963announceProvider) no_info) discovered
     = Inl TypeError"
    by (simp add: announce_listener_conv CustomEvent_def)
  moreover have "registry (step (Dispatched (CustomEvent (event_name eip6963announceProvider) no_info))
      discovered) = []"
    by code_simp
  moreover have "reported (step (Dispatched (CustomEvent (event_name eip6963announceProvider) no_info))
      discovered) = [TypeError]"
    by code_simp
  moreover have "announce_listener (Event (event_name eip6963announceProvider)) discovered
      = Inl TypeError"
    by (simp add: announce_listener_def Event_def)
  ultimately show ?thesis by blast
qed

subsection \<open>Discovery without announcers\<close>

text \<open>
  C9. On a page where no wallet answers the request event, a discovery call returns the
  mapping and leaves the heap, hence the registry, as it was, and every object too. What
  it did on \<open>window\<close> is one \<open>addEventListener\<close> and one \<open>dispatchEvent\<close> of an
  event that has the request type and no detail.
\<close>

theorem discovery_alone_writes_nothing:
  assumes "window s = Some w" and "announcers w = []"
  shows "fst (requestEIP6963Providers s) = Inr eip6963Providers
       \<and> heap (snd (requestEIP6963Providers s)) = heap s
       \<and> objects (snd (requestEIP6963Providers s)) = objects s
       \<and> trace (snd (requestEIP6963Providers s)) =
           trace s @ [AddListener (event_name eip6963announceProvider) (StoreListener (fn_count s)),
                      Dispatch \<lparr>ev_type = event_name eip6963requestProvider, detail = JUndefined\<rparr>]"
proof -
  have "heap (snd (requestEIP6963Providers s)) a = heap s a" for a
  proof (cases "a = eip6963Providers")
    case True
    then show ?thesis
      using request_registry [OF assms(1)] assms(2) by (simp add: registry_def)
  next
    case False
    then show ?thesis by (rule request_heap_other)
  qed
  then have "heap (snd (requestEIP6963Providers s)) = heap s" by (rule ext)
  then show ?thesis
    using request_trace_quiet [OF assms] request_objects [of s]
    by (simp add: request_Some [OF assms(1)])
qed

theorem discovery_alone_writes_nothing_witness:
  "window (loaded empty_page) = Some empty_page \<and> announcers empty_page = []
   \<and> fst (requestEIP6963Providers (loaded empty_page)) = Inr eip6963Providers
   \<and> registry (snd (requestEIP6963Providers (loaded empty_page))) = []"
proof -
  have h1: "window (loaded empty_page) = Some empty_page"
    by (simp add: loaded_def module_init_def)
  have h2: "announcers empty_page = []" by code_simp
  have "registry (loaded empty_page) = []" by (simp add: loaded_def module_init_def registry_def)
  then show ?thesis
    using discovery_alone_writes_nothing [OF h1 h2] h1 h2 by (simp add: registry_def)
qed

subsection \<open>Keys and stored details\<close>




end
